theory Spec2Isabelle
  imports Complex_Main "HOL-Library.Log_Nat" "HOL-Library.Char_ord" "HOL-Library.List_Lexorder"
begin

section \<open>Decoded call records\<close>

text \<open>
  The scripts read JSON objects with \<open>dict.get\<close>. A key that may be missing is an
  \<open>option\<close> field: \<open>None\<close> is what \<open>d.get(key)\<close> returns for a missing key.
  A \<open>Value\<close> object is read only through its keys \<open>address\<close> and \<open>bigInteger\<close>;
  \<open>'address' in value\<close> is \<open>address v \<noteq> None\<close>. A missing \<open>Value\<close>
  (\<open>arg.get('Value', {})\<close>) is the value with both keys absent, a missing
  \<open>Arguments\<close> or \<open>Returns\<close> list is the empty list.
\<close>

record abi_value =
  address :: "string option"
  bigInteger :: "string option"

record abi_arg =
  Name :: "string option"
  Index :: "int option"
  Value :: abi_value

record transaction =
  tx_Hash :: "string option"
  tx_From :: "string option"
  tx_To :: "string option"
  tx_ValueInUSD :: "string option"
  tx_Time :: "string option"

record block =
  blk_Number :: "string option"
  blk_Time :: "string option"

record call =
  Signature_Name :: "string option"
  Arguments :: "abi_arg list"
  Returns :: "abi_arg list"
  Transaction :: transaction
  Block :: block

text \<open>Python truthiness of a value that is a string or \<open>None\<close>: \<open>if x:\<close>.\<close>

definition truthy :: "string option \<Rightarrow> bool" where
  "truthy x = (case x of None \<Rightarrow> False | Some s \<Rightarrow> s \<noteq> [])"

section \<open>Burn events (process\_burn.py)\<close>

text \<open>
  \<open>parse_burn_arguments\<close> builds a dict that holds at most the key \<open>tokenId\<close>. The
  loop has no \<open>break\<close>: a later argument named \<open>tokenId\<close> overwrites an earlier one.
\<close>

fun parse_burn_step :: "(string \<rightharpoonup> string) \<Rightarrow> abi_arg \<Rightarrow> (string \<rightharpoonup> string)" where
  "parse_burn_step params arg =
     (let name = (case Name arg of None \<Rightarrow> [] | Some n \<Rightarrow> n);
          v = Value arg
      in if name = ''tokenId'' \<and> bigInteger v \<noteq> None
         then params(''tokenId'' := bigInteger v)
         else params)"

definition parse_burn_arguments :: "abi_arg list \<Rightarrow> (string \<rightharpoonup> string)" where
  "parse_burn_arguments arguments = foldl parse_burn_step Map.empty arguments"

record tx_info =
  ti_hash :: "string option"
  ti_from :: "string option"
  ti_to :: "string option"
  ti_value_in_usd :: "string option"
  ti_time :: "string option"

record block_info =
  bi_number :: "string option"
  bi_time :: "string option"

definition tx_info_of :: "transaction \<Rightarrow> tx_info" where
  "tx_info_of t = \<lparr>ti_hash = tx_Hash t, ti_from = tx_From t, ti_to = tx_To t,
                   ti_value_in_usd = tx_ValueInUSD t, ti_time = tx_Time t\<rparr>"

definition block_info_of :: "block \<Rightarrow> block_info" where
  "block_info_of b = \<lparr>bi_number = blk_Number b, bi_time = blk_Time b\<rparr>"

record burn_event =
  be_event_type :: string
  be_tokenId :: string
  be_transaction :: tx_info
  be_block :: block_info

text \<open>
  One pass of the loop body of \<open>process_burn_events\<close>: \<open>None\<close> is the \<open>continue\<close>
  of a record without token id, \<open>Some e\<close> the record appended to the output.
\<close>

definition burn_event_of :: "call \<Rightarrow> burn_event option" where
  "burn_event_of c =
     (let event_type = (case Signature_Name c of None \<Rightarrow> ''burn'' | Some n \<Rightarrow> n);
          params = parse_burn_arguments (Arguments c);
          token_id = params ''tokenId''
      in if \<not> truthy token_id then None
         else (case token_id of
                 None \<Rightarrow> None
               | Some t \<Rightarrow>
                   Some \<lparr>be_event_type = event_type, be_tokenId = t,
                         be_transaction = tx_info_of (Transaction c),
                         be_block = block_info_of (Block c)\<rparr>))"

fun process_burn_calls :: "call list \<Rightarrow> burn_event list" where
  "process_burn_calls [] = []"
| "process_burn_calls (c # calls) =
     (case burn_event_of c of
        None \<Rightarrow> process_burn_calls calls
      | Some e \<Rightarrow> e # process_burn_calls calls)"

text \<open>
  \<open>process_burn_events\<close> with the two responses of the client as inputs: the
  \<open>Calls\<close> list of the historical response and of the real-time one.
\<close>

definition process_burn_events :: "call list \<Rightarrow> call list \<Rightarrow> bool \<Rightarrow> burn_event list" where
  "process_burn_events historical_calls realtime_calls include_realtime =
     (let all_events = historical_calls @ (if include_realtime then realtime_calls else [])
      in if all_events = [] then [] else process_burn_calls all_events)"

text \<open>Two records for the examples: a \<open>burn(tokenId = 42)\<close> call and a call whose only
  argument is not named \<open>tokenId\<close>.\<close>

definition no_tx :: transaction where
  "no_tx = \<lparr>tx_Hash = None, tx_From = None, tx_To = None, tx_ValueInUSD = None, tx_Time = None\<rparr>"

definition no_block :: block where
  "no_block = \<lparr>blk_Number = None, blk_Time = None\<rparr>"

definition burn_call_42 :: call where
  "burn_call_42 = \<lparr>Signature_Name = Some ''burn'',
     Arguments = [\<lparr>Name = Some ''tokenId'', Index = Some 0,
                   Value = \<lparr>address = None, bigInteger = Some ''42''\<rparr>\<rparr>],
     Returns = [], Transaction = no_tx, Block = no_block\<rparr>"

definition burn_call_anonymous :: call where
  "burn_call_anonymous = \<lparr>Signature_Name = Some ''burn'',
     Arguments = [\<lparr>Name = Some ''amount'', Index = Some 0,
                   Value = \<lparr>address = None, bigInteger = Some ''7''\<rparr>\<rparr>],
     Returns = [], Transaction = no_tx, Block = no_block\<rparr>"

section \<open>Python numbers\<close>

text \<open>
  The exceptions that the arithmetic and the conversions of the scripts can raise. A
  function that may raise returns \<open>py_error + 'a\<close>, with \<open>Inl\<close> for the exception.
\<close>

datatype py_error = ValueError | TypeError | OverflowError | ZeroDivisionError

text \<open>
  A Python \<open>float\<close> is an IEEE-754 double: a finite value, kept as the rational number it
  denotes, an infinity or a NaN. The two zeros are one value here (they compare equal in
  Python, and the scripts never look at the sign of a zero).
\<close>

datatype pyfloat = Finite rat | PosInf | NegInf | NaN

text \<open>A number is an \<open>int\<close> (unbounded) or a \<open>float\<close>.\<close>

datatype pynum = PyInt int | PyFloat pyfloat

text \<open>\<open>ilog2 q\<close> is the exponent \<open>e\<close> with \<open>2^e \<le> q < 2^(e+1)\<close>, for \<open>q > 0\<close>.\<close>

definition ilog2 :: "rat \<Rightarrow> int" where
  "ilog2 q = (if 1 \<le> q then bitlen \<lfloor>q\<rfloor> - 1 else - bitlen (\<lceil>1 / q\<rceil> - 1))"

definition round_half_even :: "rat \<Rightarrow> int" where
  "round_half_even x =
     (let f = \<lfloor>x\<rfloor>; r = x - of_int f
      in if r < 1 / 2 then f
         else if 1 / 2 < r then f + 1
         else if even f then f else f + 1)"

text \<open>
  Rounding to the nearest double, ties to even: 53 significant bits, the unit in the last
  place never below \<open>2^-1074\<close> (subnormal numbers). The exponent is not bounded above
  here; \<open>double_overflows\<close> says when the rounded value would leave the range of the
  doubles, which is when the magnitude reaches \<open>2^1024 - 2^970\<close>, half a unit above the
  largest double.
\<close>

definition round_double :: "rat \<Rightarrow> rat" where
  "round_double q =
     (if q = 0 then 0
      else let e = max (ilog2 \<bar>q\<bar>) (- 1022);
               u = 2 powi (e - 52)
           in of_int (round_half_even (q / u)) * u)"

definition double_overflows :: "rat \<Rightarrow> bool" where
  "double_overflows q \<longleftrightarrow> 2 ^ 1024 - 2 ^ 970 \<le> \<bar>q\<bar>"

text \<open>
  The result of a float operation whose exact value is \<open>q\<close>: IEEE arithmetic gives an
  infinity on overflow (float multiplication and division in Python raise nothing).
\<close>

definition ieee_round :: "rat \<Rightarrow> pyfloat" where
  "ieee_round q =
     (if double_overflows q then (if 0 < q then PosInf else NegInf)
      else Finite (round_double q))"

text \<open>
  \<open>float(n)\<close> for an \<open>int\<close>, also the conversion of an \<open>int\<close> operand in mixed
  arithmetic: correctly rounded, \<open>OverflowError\<close> ("int too large to convert to float")
  when the value is out of range.
\<close>

definition int_to_float :: "int \<Rightarrow> py_error + pyfloat" where
  "int_to_float n =
     (if double_overflows (of_int n) then Inl OverflowError
      else Inr (Finite (round_double (of_int n))))"


text \<open>\<open>x * y\<close> on two floats.\<close>

fun float_mul :: "pyfloat \<Rightarrow> pyfloat \<Rightarrow> pyfloat" where
  "float_mul NaN _ = NaN"
| "float_mul _ NaN = NaN"
| "float_mul (Finite a) (Finite b) = ieee_round (a * b)"
| "float_mul (Finite a) PosInf = (if a = 0 then NaN else if 0 < a then PosInf else NegInf)"
| "float_mul (Finite a) NegInf = (if a = 0 then NaN else if 0 < a then NegInf else PosInf)"
| "float_mul PosInf (Finite b) = (if b = 0 then NaN else if 0 < b then PosInf else NegInf)"
| "float_mul NegInf (Finite b) = (if b = 0 then NaN else if 0 < b then NegInf else PosInf)"
| "float_mul PosInf PosInf = PosInf"
| "float_mul PosInf NegInf = NegInf"
| "float_mul NegInf PosInf = NegInf"
| "float_mul NegInf NegInf = PosInf"


text \<open>
  \<open>x ** k\<close> for a finite float \<open>x\<close> and an \<open>int\<close> \<open>k\<close>, after \<open>float_pow\<close> of the
  interpreter: the exponent is converted to a float first (\<open>OverflowError\<close> when it is
  out of range); a zero exponent gives \<open>1.0\<close>; a zero base gives
  \<open>ZeroDivisionError\<close> for a negative exponent and \<open>0.0\<close> otherwise; a base of
  magnitude one gives \<open>1.0\<close> or \<open>-1.0\<close>; every other case goes to the \<open>pow\<close> of the C
  library, whose overflow is turned into \<open>OverflowError\<close> and whose underflow is the
  result \<open>0.0\<close> or a subnormal number, without an exception. The library function is
  taken as correctly rounded here; a real one may differ in the last bit of a result.
  It is reached only with a non-zero exponent and a base other than \<open>0\<close>, \<open>1\<close>, \<open>-1\<close>.
\<close>

definition libm_pow :: "rat \<Rightarrow> int \<Rightarrow> py_error + pyfloat" where
  "libm_pow x k =
     (if double_overflows (x powi k) then Inl OverflowError
      else Inr (Finite (round_double (x powi k))))"

definition float_pow_int :: "rat \<Rightarrow> int \<Rightarrow> py_error + pyfloat" where
  "float_pow_int x k =
     (case int_to_float k of
        Inl e \<Rightarrow> Inl e
      | Inr iw \<Rightarrow>
          (case iw of
             Finite w \<Rightarrow>
               if w = 0 then Inr (Finite 1)
               else if x = 0 then (if w < 0 then Inl ZeroDivisionError else Inr (Finite 0))
               else if \<bar>x\<bar> = 1 then Inr (Finite (if x < 0 \<and> odd \<lfloor>w\<rfloor> then - 1 else 1))
               else libm_pow x \<lfloor>w\<rfloor>
           | _ \<Rightarrow> Inr NaN))"

text \<open>
  \<open>b ** k\<close> on two \<open>int\<close>s: an \<open>int\<close> for \<open>k \<ge> 0\<close>; for a negative exponent both
  operands are converted to float and the result is the float power.
\<close>

definition int_pow :: "int \<Rightarrow> int \<Rightarrow> py_error + pynum" where
  "int_pow b k =
     (if 0 \<le> k then Inr (PyInt (b ^ nat k))
      else case int_to_float b of
             Inl e \<Rightarrow> Inl e
           | Inr (Finite x) \<Rightarrow>
               (case float_pow_int x k of Inl e \<Rightarrow> Inl e | Inr r \<Rightarrow> Inr (PyFloat r))
           | Inr _ \<Rightarrow> Inr (PyFloat NaN))"

text \<open>\<open>x * v\<close> for a float \<open>x\<close> and a number \<open>v\<close>: an \<open>int\<close> operand is converted first.\<close>

definition float_mul_num :: "pyfloat \<Rightarrow> pynum \<Rightarrow> py_error + pyfloat" where
  "float_mul_num x v =
     (case v of
        PyFloat y \<Rightarrow> Inr (float_mul x y)
      | PyInt n \<Rightarrow> (case int_to_float n of Inl e \<Rightarrow> Inl e | Inr y \<Rightarrow> Inr (float_mul x y)))"


text \<open>
  Comparison of two numbers, as \<open>==\<close>, \<open><\<close> and \<open>>=\<close> do it: by exact value, also between
  an \<open>int\<close> and a \<open>float\<close>; every comparison with a NaN is false.
\<close>

datatype extended = MinusInfinity | Rational rat | PlusInfinity

fun num_value :: "pynum \<Rightarrow> extended option" where
  "num_value (PyInt n) = Some (Rational (of_int n))"
| "num_value (PyFloat (Finite q)) = Some (Rational q)"
| "num_value (PyFloat PosInf) = Some PlusInfinity"
| "num_value (PyFloat NegInf) = Some MinusInfinity"
| "num_value (PyFloat NaN) = None"

fun extended_less :: "extended \<Rightarrow> extended \<Rightarrow> bool" where
  "extended_less (Rational a) (Rational b) = (a < b)"
| "extended_less MinusInfinity b = (b \<noteq> MinusInfinity)"
| "extended_less a PlusInfinity = (a \<noteq> PlusInfinity)"
| "extended_less _ _ = False"

definition py_lt :: "pynum \<Rightarrow> pynum \<Rightarrow> bool" where
  "py_lt a b = (case (num_value a, num_value b) of
                  (Some x, Some y) \<Rightarrow> extended_less x y
                | _ \<Rightarrow> False)"

definition py_eq :: "pynum \<Rightarrow> pynum \<Rightarrow> bool" where
  "py_eq a b = (case (num_value a, num_value b) of
                  (Some x, Some y) \<Rightarrow> x = y
                | _ \<Rightarrow> False)"

definition py_ge :: "pynum \<Rightarrow> pynum \<Rightarrow> bool" where
  "py_ge a b = (py_lt b a \<or> py_eq a b)"

section \<open>Reading an integer: \<open>int(s)\<close>\<close>










section \<open>Amounts and prices (process\_positions.py, process\_mint\_burn.py)\<close>

text \<open>
  \<open>try: ... except (E1, E2): return 0.0\<close>: an exception of a listed class becomes the
  result \<open>0.0\<close>, any other one leaves the function.
\<close>

definition except_return_zero :: "py_error set \<Rightarrow> py_error + pyfloat \<Rightarrow> py_error + pyfloat" where
  "except_return_zero caught r =
     (case r of
        Inl e \<Rightarrow> if e \<in> caught then Inr (Finite 0) else Inl e
      | Inr x \<Rightarrow> Inr x)"



text \<open>The float that the literal \<open>1.0001\<close> denotes.\<close>

definition tick_base :: rat where
  "tick_base = round_double (10001 / 10000)"

text \<open>
  The body of the \<open>try\<close> of \<open>calculate_price_from_tick\<close>:
  \<open>(1.0001) ** tick\<close>, then \<open>10 ** (token0_decimals - token1_decimals)\<close>, then their
  product.
\<close>

definition calculate_price_body :: "int \<Rightarrow> int \<Rightarrow> int \<Rightarrow> py_error + pyfloat" where
  "calculate_price_body tick token0_decimals token1_decimals =
     (case float_pow_int tick_base tick of
        Inl e \<Rightarrow> Inl e
      | Inr price_unadjusted \<Rightarrow>
          (case int_pow 10 (token0_decimals - token1_decimals) of
             Inl e \<Rightarrow> Inl e
           | Inr decimal_adjustment \<Rightarrow> float_mul_num price_unadjusted decimal_adjustment))"

definition calculate_price_from_tick :: "int \<Rightarrow> int \<Rightarrow> int \<Rightarrow> py_error + pyfloat" where
  "calculate_price_from_tick tick token0_decimals token1_decimals =
     except_return_zero {ValueError, TypeError, OverflowError}
       (calculate_price_body tick token0_decimals token1_decimals)"


section \<open>Properties of burn processing\<close>

lemma parse_burn_arguments_dom:
  "foldl parse_burn_step m args ''tokenId'' = Some t \<Longrightarrow>
   m ''tokenId'' = Some t \<or>
   (\<exists>a\<in>set args. Name a = Some ''tokenId'' \<and> bigInteger (Value a) = Some t)"
  by (induction args rule: rev_induct) (auto simp: Let_def split: if_splits option.splits)

lemma burn_event_of_Some:
  "burn_event_of c = Some e \<Longrightarrow>
   be_tokenId e \<noteq> [] \<and>
   (\<exists>a\<in>set (Arguments c). Name a = Some ''tokenId'' \<and> bigInteger (Value a) = Some (be_tokenId e))"
  using parse_burn_arguments_dom[of Map.empty "Arguments c"]
  by (auto simp: burn_event_of_def parse_burn_arguments_def truthy_def Let_def
           split: if_splits option.splits)

lemma burn_event_of_None:
  assumes "\<not> (\<exists>a\<in>set (Arguments c). Name a = Some ''tokenId'' \<and> truthy (bigInteger (Value a)))"
  shows "burn_event_of c = None"
proof (cases "burn_event_of c")
  case None
  then show ?thesis .
next
  case (Some e)
  from burn_event_of_Some[OF Some] assms show ?thesis
    by (auto simp: truthy_def)
qed

lemma process_burn_calls_append:
  "process_burn_calls (xs @ ys) = process_burn_calls xs @ process_burn_calls ys"
  by (induction xs) (auto split: option.splits)

lemma process_burn_calls_set:
  "set (process_burn_calls cs) = {e. \<exists>c\<in>set cs. burn_event_of c = Some e}"
  by (induction cs) (auto split: option.splits)

text \<open>
  C10. The token id of a burn record is looked up among its arguments: one named
  \<open>tokenId\<close> that holds a \<open>bigInteger\<close>. A record in which no argument named
  \<open>tokenId\<close> holds a non-empty \<open>bigInteger\<close> leaves no trace in the output, wherever
  it stands in the batch, and the records before and after it are processed as without
  it. Every emitted event has a non-empty \<open>tokenId\<close>, which is the \<open>bigInteger\<close> of
  an argument named \<open>tokenId\<close> of one of the input records.
\<close>

theorem burn_without_token_id_dropped:
  "(\<not> (\<exists>a\<in>set (Arguments c). Name a = Some ''tokenId'' \<and> truthy (bigInteger (Value a)))
      \<longrightarrow> process_burn_calls (xs @ c # ys) = process_burn_calls xs @ process_burn_calls ys)
   \<and> (\<forall>e\<in>set (process_burn_calls calls).
         be_tokenId e \<noteq> [] \<and>
         (\<exists>c'\<in>set calls. \<exists>a\<in>set (Arguments c').
            Name a = Some ''tokenId'' \<and> bigInteger (Value a) = Some (be_tokenId e)))"
proof (intro conjI impI ballI)
  assume "\<not> (\<exists>a\<in>set (Arguments c). Name a = Some ''tokenId'' \<and> truthy (bigInteger (Value a)))"
  then have "burn_event_of c = None" by (rule burn_event_of_None)
  then show "process_burn_calls (xs @ c # ys) = process_burn_calls xs @ process_burn_calls ys"
    by (simp add: process_burn_calls_append)
next
  fix e assume "e \<in> set (process_burn_calls calls)"
  then obtain c' where c': "c' \<in> set calls" "burn_event_of c' = Some e"
    by (auto simp: process_burn_calls_set)
  from burn_event_of_Some[OF c'(2)] c'(1)
  show "be_tokenId e \<noteq> []"
    and "\<exists>c'\<in>set calls. \<exists>a\<in>set (Arguments c').
            Name a = Some ''tokenId'' \<and> bigInteger (Value a) = Some (be_tokenId e)"
    by auto
qed

lemma burn_event_of_42: "burn_event_of burn_call_42 =
    Some \<lparr>be_event_type = ''burn'', be_tokenId = ''42'',
          be_transaction = tx_info_of no_tx, be_block = block_info_of no_block\<rparr>"
  by (simp add: burn_event_of_def burn_call_42_def parse_burn_arguments_def truthy_def)

lemma burn_event_of_anonymous: "burn_event_of burn_call_anonymous = None"
  by (simp add: burn_event_of_def burn_call_anonymous_def parse_burn_arguments_def truthy_def)

theorem burn_without_token_id_dropped_witness:
  "\<not> (\<exists>a\<in>set (Arguments burn_call_anonymous).
         Name a = Some ''tokenId'' \<and> truthy (bigInteger (Value a)))
   \<and> process_burn_calls ([burn_call_42] @ burn_call_anonymous # [burn_call_42])
       = process_burn_calls [burn_call_42] @ process_burn_calls [burn_call_42]
   \<and> map be_tokenId (process_burn_calls [burn_call_42, burn_call_anonymous, burn_call_42])
       = [''42'', ''42'']"
proof -
  have h: "\<not> (\<exists>a\<in>set (Arguments burn_call_anonymous).
                 Name a = Some ''tokenId'' \<and> truthy (bigInteger (Value a)))"
    by (simp add: burn_call_anonymous_def)
  from burn_without_token_id_dropped[of burn_call_anonymous "[burn_call_42]" "[burn_call_42]"
        "[burn_call_42, burn_call_anonymous, burn_call_42]"] h
  show ?thesis by (simp add: burn_event_of_42 burn_event_of_anonymous)
qed

section \<open>Properties of rounding to a double\<close>

lemma ilog2_bounds:
  assumes "0 < q"
  shows "2 powi (ilog2 q) \<le> q" and "q < 2 powi (ilog2 q + 1)"
proof -
  show "2 powi (ilog2 q) \<le> q"
  proof (cases "1 \<le> q")
    case True
    define n where "n = \<lfloor>q\<rfloor>"
    have n1: "1 \<le> n" using True by (simp add: n_def le_floor_iff)
    then have "0 < n" by simp
    from bitlen_bounds[OF this] have b: "2 ^ nat (bitlen n - 1) \<le> n" by simp
    have "1 \<le> bitlen n" using \<open>0 < n\<close> by (simp add: bitlen_alt_def)
    then have "(2::rat) powi (bitlen n - 1) = 2 ^ nat (bitlen n - 1)"
      by (simp add: power_int_nonneg_exp)
    also have "\<dots> = of_int (2 ^ nat (bitlen n - 1))" by simp
    also have "\<dots> \<le> of_int n" using b by (simp only: of_int_le_iff)
    also have "\<dots> \<le> q" by (simp add: n_def)
    finally show ?thesis using True by (simp add: ilog2_def n_def)
  next
    case False
    define N where "N = \<lceil>1 / q\<rceil>"
    have r1: "1 < 1 / q" using False assms by simp
    then have N2: "2 \<le> N" unfolding N_def by (simp add: le_ceiling_iff)
    define b where "b = bitlen (N - 1)"
    have pos: "0 < N - 1" using N2 by simp
    from bitlen_bounds[OF pos] have ub: "N - 1 < 2 ^ nat b" by (simp add: b_def)
    then have "N \<le> 2 ^ nat b" by simp
    then have "(of_int N :: rat) \<le> of_int (2 ^ nat b)" by (simp only: of_int_le_iff)
    then have "(of_int N :: rat) \<le> 2 ^ nat b" by simp
    moreover have "1 / q \<le> of_int N" by (simp add: N_def)
    ultimately have "1 / q \<le> 2 ^ nat b" by linarith
    then have "1 \<le> 2 ^ nat b * q" using assms by (simp add: field_simps)
    then have "1 / 2 ^ nat b \<le> q" by (simp add: field_simps)
    moreover have "0 \<le> b" by (simp add: b_def bitlen_nonneg)
    then have "(2::rat) powi (- b) = 1 / 2 ^ nat b"
      by (simp add: power_int_minus power_int_nonneg_exp field_simps)
    ultimately show ?thesis using False by (simp add: ilog2_def N_def b_def)
  qed
  show "q < 2 powi (ilog2 q + 1)"
  proof (cases "1 \<le> q")
    case True
    define n where "n = \<lfloor>q\<rfloor>"
    have n1: "1 \<le> n" using True by (simp add: n_def le_floor_iff)
    then have "0 < n" by simp
    from bitlen_bounds[OF this] have b: "n < 2 ^ nat (bitlen n)" by simp
    then have "n + 1 \<le> 2 ^ nat (bitlen n)" by simp
    then have "(of_int (n + 1) :: rat) \<le> of_int (2 ^ nat (bitlen n))" by (simp only: of_int_le_iff)
    then have le: "(of_int n + 1 :: rat) \<le> 2 ^ nat (bitlen n)" by simp
    have "q < of_int n + 1" unfolding n_def by linarith
    with le have "q < 2 ^ nat (bitlen n)" by linarith
    moreover have "0 \<le> bitlen n" by (simp add: bitlen_nonneg)
    then have "(2::rat) powi (bitlen n) = 2 ^ nat (bitlen n)" by (simp add: power_int_nonneg_exp)
    ultimately show ?thesis using True by (simp add: ilog2_def n_def)
  next
    case False
    define N where "N = \<lceil>1 / q\<rceil>"
    have r1: "1 < 1 / q" using False assms by simp
    then have N2: "2 \<le> N" unfolding N_def by (simp add: le_ceiling_iff)
    define b where "b = bitlen (N - 1)"
    have pos: "0 < N - 1" using N2 by simp
    have b1: "1 \<le> b" using pos by (simp add: b_def bitlen_alt_def)
    from bitlen_bounds[OF pos] have lb: "2 ^ nat (b - 1) \<le> N - 1" by (simp add: b_def)
    then have "(of_int (2 ^ nat (b - 1)) :: rat) \<le> of_int (N - 1)" by (simp only: of_int_le_iff)
    then have "(2 ^ nat (b - 1) :: rat) \<le> of_int N - 1" by simp
    moreover have "of_int N - 1 < 1 / q" unfolding N_def by linarith
    ultimately have "2 ^ nat (b - 1) < 1 / q" by linarith
    then have "2 ^ nat (b - 1) * q < 1" using assms by (simp add: field_simps)
    then have "q < 1 / 2 ^ nat (b - 1)" by (simp add: field_simps)
    moreover have "(2::rat) powi (- b + 1) = 1 / 2 ^ nat (b - 1)"
    proof -
      have "- b + 1 = - (b - 1)" by simp
      then have "(2::rat) powi (- b + 1) = inverse (2 powi (b - 1))"
        by (simp only: power_int_minus)
      also have "\<dots> = 1 / 2 ^ nat (b - 1)" using b1
        by (simp add: power_int_nonneg_exp field_simps)
      finally show ?thesis .
    qed
    ultimately show ?thesis using False by (simp add: ilog2_def N_def b_def)
  qed
qed

lemma ilog2_unique:
  assumes "2 powi k \<le> q" "q < 2 powi (k + 1)"
  shows "ilog2 q = k"
proof -
  have "(0::rat) < 2 powi k" by simp
  with assms have q: "0 < q" by linarith
  note b = ilog2_bounds[OF q]
  have "(2::rat) powi k < 2 powi (ilog2 q + 1)" using assms(1) b(2) by linarith
  then have "k < ilog2 q + 1"
    by (meson power_int_increasing linorder_not_le one_le_numeral)
  moreover have "(2::rat) powi (ilog2 q) < 2 powi (k + 1)" using assms(2) b(1) by linarith
  then have "ilog2 q < k + 1"
    by (meson power_int_increasing linorder_not_le one_le_numeral)
  ultimately show ?thesis by simp
qed

lemma round_half_even_of_int: "round_half_even (of_int n) = n"
  by (simp add: round_half_even_def)

lemma round_half_even_le: "x < of_int m + 1 / 2 \<Longrightarrow> round_half_even x \<le> m"
  unfolding round_half_even_def Let_def
  by (auto; linarith)

lemma round_half_even_ge: "of_int m - 1 / 2 < x \<Longrightarrow> m \<le> round_half_even x"
  unfolding round_half_even_def Let_def
  by (auto; linarith)

lemma two_powi_split: "(2::rat) powi (e + 1) = 2 powi 53 * 2 powi (e - 52)"
proof -
  have "(2::rat) powi (53 + (e - 52)) = 2 powi 53 * 2 powi (e - 52)"
    by (rule power_int_add) simp
  moreover have "53 + (e - 52) = e + 1" by simp
  ultimately show ?thesis by (simp only:)
qed

lemma two_powi_split52: "(2::rat) powi e = 2 powi 52 * 2 powi (e - 52)"
proof -
  have "(2::rat) powi (52 + (e - 52)) = 2 powi 52 * 2 powi (e - 52)"
    by (rule power_int_add) simp
  moreover have "52 + (e - 52) = e" by simp
  ultimately show ?thesis by (simp only:)
qed

lemma of_int_le_pow2: "(k::int) \<le> 2 ^ j \<Longrightarrow> (of_int k :: rat) \<le> 2 ^ j"
  by (metis of_int_le_iff of_int_numeral of_int_power)

lemma of_int_less_pow2: "(k::int) < 2 ^ j \<Longrightarrow> (of_int k :: rat) < 2 ^ j"
  by (metis of_int_less_iff of_int_numeral of_int_power)

lemma of_int_ge_pow2: "2 ^ j \<le> (k::int) \<Longrightarrow> 2 ^ j \<le> (of_int k :: rat)"
  by (metis of_int_le_iff of_int_numeral of_int_power)

text \<open>A number of the shape of a double is left as it is.\<close>

lemma round_double_exact:
  assumes e: "- 1022 \<le> e"
    and n: "\<bar>n\<bar> \<le> 2 ^ 53"
    and normal: "- 1022 < e \<Longrightarrow> 2 ^ 52 \<le> \<bar>n\<bar>"
  shows "round_double (of_int n * 2 powi (e - 52)) = of_int n * 2 powi (e - 52)"
proof (cases "n = 0")
  case True
  then show ?thesis by (simp add: round_double_def)
next
  case False
  define u :: rat where "u = 2 powi (e - 52)"
  define r where "r = of_int n * u"
  have u: "0 < u" by (simp add: u_def)
  have r0: "r \<noteq> 0" using False u by (simp add: r_def)
  have absr: "\<bar>r\<bar> = of_int \<bar>n\<bar> * u" using u by (simp add: r_def abs_mult)
  have pe: "(2::rat) powi e = 2 ^ 52 * u" using two_powi_split52[of e] by (simp add: u_def)
  have pe1: "(2::rat) powi (e + 1) = 2 ^ 53 * u" using two_powi_split[of e] by (simp add: u_def)
  consider (top) "\<bar>n\<bar> = 2 ^ 53" | (mid) "2 ^ 52 \<le> \<bar>n\<bar>" "\<bar>n\<bar> < 2 ^ 53" | (sub) "\<bar>n\<bar> < 2 ^ 52"
    using n by linarith
  then have "\<exists>m e'. max (ilog2 \<bar>r\<bar>) (- 1022) = e' \<and> r = of_int m * 2 powi (e' - 52)"
  proof cases
    case top
    then have "\<bar>r\<bar> = 2 powi (e + 1)" using absr pe1 by simp
    then have "ilog2 \<bar>r\<bar> = e + 1"
      by (intro ilog2_unique) (simp_all add: power_int_strict_increasing)
    then have m: "max (ilog2 \<bar>r\<bar>) (- 1022) = e + 1" using e by simp
    from top have "n = 2 ^ 53 \<or> n = - (2 ^ 53)" by linarith
    then have "even n" by auto
    then obtain m' where m': "n = 2 * m'" by (elim evenE)
    have "(2::rat) powi (e + 1 - 52) = 2 * u"
      using power_int_add_1[of "2::rat" "e - 52"] by (simp add: u_def add.commute mult.commute)
    then have "r = of_int m' * 2 powi (e + 1 - 52)" by (simp add: r_def m')
    with m show ?thesis by blast
  next
    case mid
    have "2 powi e \<le> \<bar>r\<bar>" unfolding pe absr
      using mult_right_mono[OF of_int_ge_pow2[OF mid(1)], of u] u by simp
    moreover have "\<bar>r\<bar> < 2 powi (e + 1)" unfolding pe1 absr
      using mult_strict_right_mono[OF of_int_less_pow2[OF mid(2)], of u] u by simp
    ultimately have "ilog2 \<bar>r\<bar> = e" by (rule ilog2_unique)
    then have "max (ilog2 \<bar>r\<bar>) (- 1022) = e" using e by simp
    then show ?thesis unfolding r_def u_def by blast
  next
    case sub
    with normal have e': "e = - 1022" using e by linarith
    have "\<bar>r\<bar> < 2 powi e" unfolding pe absr
      using mult_strict_right_mono[OF of_int_less_pow2[OF sub], of u] u by simp
    moreover have "0 < \<bar>r\<bar>" using r0 by simp
    from ilog2_bounds(1)[OF this] have "2 powi (ilog2 \<bar>r\<bar>) \<le> \<bar>r\<bar>" .
    ultimately have "(2::rat) powi (ilog2 \<bar>r\<bar>) < 2 powi e" by linarith
    then have "ilog2 \<bar>r\<bar> < e"
      by (meson power_int_increasing linorder_not_le one_le_numeral)
    then have "max (ilog2 \<bar>r\<bar>) (- 1022) = e" using e' by simp
    then show ?thesis unfolding r_def u_def by blast
  qed
  then obtain m e' where m: "max (ilog2 \<bar>r\<bar>) (- 1022) = e'" "r = of_int m * 2 powi (e' - 52)"
    by blast
  have "r / 2 powi (e' - 52) = of_int m" using m(2) by simp
  then have "round_double r = of_int (round_half_even (of_int m)) * 2 powi (e' - 52)"
    using r0 m(1) by (simp add: round_double_def Let_def)
  then have "round_double r = r" using m(2) by (simp add: round_half_even_of_int)
  then show ?thesis by (simp add: r_def u_def)
qed

lemma round_double_shape:
  assumes "q \<noteq> 0"
  shows "\<exists>n e. round_double q = of_int n * 2 powi (e - 52) \<and> - 1022 \<le> e \<and>
               e = max (ilog2 \<bar>q\<bar>) (- 1022) \<and> n = round_half_even (q / 2 powi (e - 52)) \<and>
               \<bar>n\<bar> \<le> 2 ^ 53 \<and> (- 1022 < e \<longrightarrow> 2 ^ 52 \<le> \<bar>n\<bar>)"
proof -
  define a where "a = \<bar>q\<bar>"
  define L where "L = ilog2 a"
  define e where "e = max L (- 1022)"
  define u :: rat where "u = 2 powi (e - 52)"
  define x where "x = q / u"
  define n where "n = round_half_even x"
  have a: "0 < a" using assms by (simp add: a_def)
  have u: "0 < u" by (simp add: u_def)
  have pe: "(2::rat) powi e = 2 ^ 52 * u" using two_powi_split52[of e] by (simp add: u_def)
  have pe1: "(2::rat) powi (e + 1) = 2 ^ 53 * u" using two_powi_split[of e] by (simp add: u_def)
  have absx: "\<bar>x\<bar> = a / u" using u by (simp add: x_def a_def)
  have "a < 2 powi (L + 1)" unfolding L_def by (rule ilog2_bounds(2)[OF a])
  also have "\<dots> \<le> 2 powi (e + 1)" by (rule power_int_increasing) (simp_all add: e_def)
  finally have "a < 2 ^ 53 * u" by (simp add: pe1)
  then have xlt: "\<bar>x\<bar> < 2 ^ 53" using u by (simp add: absx field_simps)
  have "x < of_int (2 ^ 53) + 1 / 2" using xlt by simp
  then have n_le: "n \<le> 2 ^ 53" unfolding n_def by (rule round_half_even_le)
  have "of_int (- (2 ^ 53)) - 1 / 2 < x" using xlt by simp
  then have n_ge: "- (2 ^ 53) \<le> n" unfolding n_def by (rule round_half_even_ge)
  have nabs: "\<bar>n\<bar> \<le> 2 ^ 53" using n_le n_ge by linarith
  have normal: "2 ^ 52 \<le> \<bar>n\<bar>" if "- 1022 < e"
  proof -
    from that have "e = L" by (simp add: e_def max_def split: if_splits)
    then have "2 powi e \<le> a" unfolding L_def using ilog2_bounds(1)[OF a] by simp
    then have "2 ^ 52 * u \<le> a" by (simp add: pe)
    then have xge: "2 ^ 52 \<le> \<bar>x\<bar>" using u by (simp add: absx field_simps)
    show ?thesis
    proof (cases "0 \<le> x")
      case True
      then have "of_int (2 ^ 52) - 1 / 2 < x" using xge by simp
      then have "2 ^ 52 \<le> n" unfolding n_def by (rule round_half_even_ge)
      then show ?thesis by linarith
    next
      case False
      then have "x < of_int (- (2 ^ 52)) + 1 / 2" using xge by simp
      then have "n \<le> - (2 ^ 52)" unfolding n_def by (rule round_half_even_le)
      then show ?thesis by linarith
    qed
  qed
  have "round_double q = of_int n * u"
    using assms by (simp add: round_double_def Let_def n_def x_def u_def e_def L_def a_def)
  moreover have "- 1022 \<le> e" by (simp add: e_def)
  ultimately show ?thesis using nabs normal
    unfolding u_def n_def x_def e_def L_def a_def by blast
qed

lemma round_double_idem: "round_double (round_double q) = round_double q"
proof (cases "q = 0")
  case True
  then show ?thesis by (simp add: round_double_def)
next
  case False
  from round_double_shape[OF False] obtain n e where
    "round_double q = of_int n * 2 powi (e - 52)" "- 1022 \<le> e" "\<bar>n\<bar> \<le> 2 ^ 53"
    "- 1022 < e \<longrightarrow> 2 ^ 52 \<le> \<bar>n\<bar>" by blast
  then show ?thesis using round_double_exact[of e n] by simp
qed

lemma round_double_no_overflow:
  assumes "\<not> double_overflows q"
  shows "\<not> double_overflows (round_double q)"
proof (cases "q = 0")
  case True
  then show ?thesis by (simp add: round_double_def double_overflows_def)
next
  case False
  from round_double_shape[OF False] obtain n e where
    r: "round_double q = of_int n * 2 powi (e - 52)" and e: "e = max (ilog2 \<bar>q\<bar>) (- 1022)"
    and n: "n = round_half_even (q / 2 powi (e - 52))" and nabs: "\<bar>n\<bar> \<le> 2 ^ 53" by blast
  define u :: rat where "u = 2 powi (e - 52)"
  have u: "0 < u" by (simp add: u_def)
  have q: "\<bar>q\<bar> < 2 ^ 1024 - 2 ^ 970" using assms by (simp add: double_overflows_def)
  have a: "0 < \<bar>q\<bar>" using False by simp
  have "2 powi (ilog2 \<bar>q\<bar>) \<le> \<bar>q\<bar>" by (rule ilog2_bounds(1)[OF a])
  also have "\<bar>q\<bar> < 2 powi 1024" using q by simp
  finally have "ilog2 \<bar>q\<bar> < 1024"
    by (meson power_int_increasing linorder_not_le one_le_numeral)
  then have e1023: "e \<le> 1023" by (simp add: e)
  have absr: "\<bar>round_double q\<bar> = of_int \<bar>n\<bar> * u" using u by (simp add: r u_def abs_mult)
  show ?thesis
  proof (cases "e = 1023")
    case True
    then have u971: "u = 2 ^ 971" by (simp add: u_def)
    define x where "x = q / u"
    have "\<bar>x\<bar> < 2 ^ 53 - 1 / 2" using q by (simp add: x_def u971 abs_divide field_simps)
    then have x1: "x < of_int (2 ^ 53 - 1) + 1 / 2" and x2: "of_int (- (2 ^ 53 - 1)) - 1 / 2 < x"
      by simp_all
    have "round_half_even x \<le> 2 ^ 53 - 1" "- (2 ^ 53 - 1) \<le> round_half_even x"
      using round_half_even_le[OF x1] round_half_even_ge[OF x2] by simp_all
    then have "n \<le> 2 ^ 53 - 1" "- (2 ^ 53 - 1) \<le> n"
      by (simp_all add: n x_def u_def)
    then have "\<bar>n\<bar> \<le> 2 ^ 53 - 1" by linarith
    then have "(of_int \<bar>n\<bar> :: rat) \<le> of_int (2 ^ 53 - 1)" by (simp only: of_int_le_iff)
    then have "of_int \<bar>n\<bar> * u \<le> (2 ^ 53 - 1) * u" using u by (intro mult_right_mono) simp_all
    then show ?thesis by (simp add: double_overflows_def absr u971)
  next
    case False
    then have "e + 1 \<le> 1023" using e1023 by simp
    have "of_int \<bar>n\<bar> * u \<le> 2 ^ 53 * u"
      using mult_right_mono[OF of_int_le_pow2[OF nabs], of u] u by simp
    also have "\<dots> = 2 powi (e + 1)" using two_powi_split[of e] by (simp add: u_def)
    also have "\<dots> \<le> 2 powi 1023" by (rule power_int_increasing) (use \<open>e + 1 \<le> 1023\<close> in simp_all)
    finally have "\<bar>round_double q\<bar> \<le> 2 ^ 1023" by (simp add: absr)
    then show ?thesis by (simp add: double_overflows_def)
  qed
qed

lemma round_double_pow10_exact: "\<forall>k\<in>{0..22::nat}. round_double (10 ^ k) = 10 ^ k"
  by code_simp

section \<open>Properties of the amount conversion\<close>












section \<open>Properties of the price of a tick\<close>

lemma tick_base_value: "tick_base = 4504049987333233 / 4503599627370496"
  unfolding tick_base_def by code_simp

lemma int_to_float_error: "int_to_float n = Inl e \<Longrightarrow> e = OverflowError"
  by (auto simp: int_to_float_def split: if_splits)

lemma int_to_float_finite: "int_to_float n = Inr x \<Longrightarrow> \<exists>q. x = Finite q"
  by (auto simp: int_to_float_def split: if_splits)

lemma libm_pow_error: "libm_pow x k = Inl e \<Longrightarrow> e = OverflowError"
  by (auto simp: libm_pow_def split: if_splits)

lemma float_pow_int_error:
  "x \<noteq> 0 \<Longrightarrow> float_pow_int x k = Inl e \<Longrightarrow> e = OverflowError"
  by (auto simp: float_pow_int_def split: sum.splits pyfloat.splits if_splits
           dest: int_to_float_error libm_pow_error)

lemma int_to_float_10: "int_to_float 10 = Inr (Finite 10)"
  by code_simp

lemma int_pow_10_error: "int_pow 10 k = Inl e \<Longrightarrow> e = OverflowError"
  using float_pow_int_error[of 10 k]
  by (auto simp: int_pow_def int_to_float_10 split: if_splits sum.splits)

lemma float_mul_num_error: "float_mul_num x v = Inl e \<Longrightarrow> e = OverflowError"
  by (auto simp: float_mul_num_def split: pynum.splits sum.splits dest: int_to_float_error)

lemma calculate_price_body_error:
  "calculate_price_body tick d0 d1 = Inl e \<Longrightarrow> e = OverflowError"
proof -
  have "tick_base \<noteq> 0" by (simp add: tick_base_value)
  then show "calculate_price_body tick d0 d1 = Inl e \<Longrightarrow> e = OverflowError"
    by (auto simp: calculate_price_body_def split: sum.splits
             dest: float_pow_int_error int_pow_10_error float_mul_num_error)
qed

text \<open>
  C3. \<open>calculate_price_from_tick\<close> returns a float for every tick and every pair of
  decimal counts. Whatever exception the computation of
  \<open>1.0001**tick * 10**(d0 - d1)\<close> raises is one of the three that the \<open>except\<close>
  clause lists (it is always \<open>OverflowError\<close>), and the function then returns \<open>0.0\<close>.
\<close>

theorem calculate_price_from_tick_total:
  "(\<exists>x. calculate_price_from_tick tick d0 d1 = Inr x) \<and>
   (\<forall>e. calculate_price_body tick d0 d1 = Inl e \<longrightarrow>
        e \<in> {ValueError, TypeError, OverflowError} \<and>
        calculate_price_from_tick tick d0 d1 = Inr (Finite 0))"
proof (cases "calculate_price_body tick d0 d1")
  case (Inl e)
  from calculate_price_body_error[OF Inl] Inl show ?thesis
    by (simp add: calculate_price_from_tick_def except_return_zero_def)
next
  case (Inr x)
  then show ?thesis
    by (simp add: calculate_price_from_tick_def except_return_zero_def)
qed

lemma price_body_overflow: "calculate_price_body 0 400 0 = Inl OverflowError"
  by code_simp

theorem calculate_price_from_tick_total_witness:
  "calculate_price_body 0 400 0 = Inl OverflowError \<and>
   calculate_price_from_tick 0 400 0 = Inr (Finite 0)"
  using calculate_price_from_tick_total[of 0 400 0] price_body_overflow by simp

lemma round_double_small_ints:
  "round_double 0 = 0" "round_double 1 = 1" "round_double (- 1) = - 1"
  by code_simp+

lemma not_overflows_small: "\<not> double_overflows 0" "\<not> double_overflows 1" "\<not> double_overflows (- 1)"
  by (simp_all add: double_overflows_def)

lemma float_pow_int_zero: "float_pow_int x 0 = Inr (Finite 1)"
  by (simp add: float_pow_int_def int_to_float_def round_double_small_ints not_overflows_small)

lemma float_mul_one_exact:
  "round_double y = y \<Longrightarrow> \<not> double_overflows y \<Longrightarrow> float_mul (Finite 1) (Finite y) = Finite y"
  by (simp add: ieee_round_def)

lemma float_pow_int_unfold:
  "int_to_float k = Inr (Finite w) \<Longrightarrow>
   float_pow_int x k =
     (if w = 0 then Inr (Finite 1)
      else if x = 0 then (if w < 0 then Inl ZeroDivisionError else Inr (Finite 0))
      else if \<bar>x\<bar> = 1 then Inr (Finite (if x < 0 \<and> odd \<lfloor>w\<rfloor> then - 1 else 1))
      else libm_pow x \<lfloor>w\<rfloor>)"
  by (simp add: float_pow_int_def)

lemma libm_pow_result:
  "libm_pow x j = Inr r \<Longrightarrow> \<exists>y. r = Finite y \<and> round_double y = y \<and> \<not> double_overflows y"
  by (auto simp: libm_pow_def round_double_idem round_double_no_overflow split: if_splits)

lemma float_pow_int_result:
  assumes "float_pow_int x k = Inr r"
  shows "\<exists>y. r = Finite y \<and> round_double y = y \<and> \<not> double_overflows y"
proof -
  obtain w where w: "int_to_float k = Inr (Finite w)"
    using assms int_to_float_finite[of k]
    by (cases "int_to_float k") (auto simp: float_pow_int_def)
  note u = float_pow_int_unfold[OF w, of x]
  show ?thesis
  proof (cases "w = 0")
    case True
    with assms u have "r = Finite 1" by simp
    then show ?thesis by (simp add: round_double_small_ints not_overflows_small)
  next
    case w0: False
    show ?thesis
    proof (cases "x = 0")
      case True
      with assms u w0 have "r = Finite 0" by (auto split: if_splits)
      then show ?thesis by (simp add: round_double_small_ints not_overflows_small)
    next
      case x0: False
      show ?thesis
      proof (cases "\<bar>x\<bar> = 1")
        case True
        with assms u w0 x0 have "r = Finite 1 \<or> r = Finite (- 1)"
          by (auto split: if_splits)
        then show ?thesis by (auto simp: round_double_small_ints not_overflows_small)
      next
        case False
        with assms u w0 x0 have "libm_pow x \<lfloor>w\<rfloor> = Inr r" by simp
        then show ?thesis by (rule libm_pow_result)
      qed
    qed
  qed
qed

lemma int_pow_10_negative:
  assumes "k < 0" "int_pow 10 k = Inr v"
  shows "\<exists>y. v = PyFloat (Finite y) \<and> round_double y = y \<and> \<not> double_overflows y"
proof -
  from assms obtain r where r: "float_pow_int 10 k = Inr r" "v = PyFloat r"
    by (auto simp: int_pow_def int_to_float_10 split: sum.splits)
  from float_pow_int_result[OF r(1)] r(2) show ?thesis by blast
qed

lemma py_eq_float_refl: "py_eq (PyFloat (Finite y)) (PyFloat (Finite y))"
  by (simp add: py_eq_def)

lemma py_eq_float_int: "py_eq (PyFloat (Finite (of_int n))) (PyInt n)"
  by (simp add: py_eq_def)

lemma pow10_bound:
  assumes "k \<le> 308"
  shows "\<not> double_overflows (10 ^ k)"
proof -
  have "(10::rat) ^ k \<le> 10 ^ 308" using assms by (intro power_increasing) simp_all
  moreover have "(10::rat) ^ 308 < 2 ^ 1024 - 2 ^ 970" by simp
  ultimately show ?thesis by (simp add: double_overflows_def)
qed

lemma pow10_overflow:
  assumes "309 \<le> k"
  shows "double_overflows (10 ^ k)"
proof -
  have "(10::rat) ^ 309 \<le> 10 ^ k" using assms by (intro power_increasing) simp_all
  moreover have "(2::rat) ^ 1024 - 2 ^ 970 \<le> 10 ^ 309" by simp
  ultimately show ?thesis by (simp add: double_overflows_def)
qed

lemma price_tick_zero_nonneg:
  assumes "0 \<le> d0 - d1" "nat (d0 - d1) \<le> 308"
  shows "calculate_price_body 0 d0 d1 = Inr (Finite (round_double (10 ^ nat (d0 - d1))))"
proof -
  define k where "k = d0 - d1"
  note assms = assms[folded k_def]
  have p: "int_pow 10 k = Inr (PyInt (10 ^ nat k))"
    using assms(1) by (simp add: int_pow_def)
  have no: "\<not> double_overflows (10 ^ nat k)" by (rule pow10_bound[OF assms(2)])
  then have c: "int_to_float (10 ^ nat k) = Inr (Finite (round_double (10 ^ nat k)))"
    by (simp add: int_to_float_def)
  have "float_mul (Finite 1) (Finite (round_double (10 ^ nat k))) = Finite (round_double (10 ^ nat k))"
    by (rule float_mul_one_exact) (simp_all add: round_double_idem round_double_no_overflow no)
  then show ?thesis unfolding k_def[symmetric]
    by (simp add: calculate_price_body_def float_pow_int_zero p float_mul_num_def c
        flip: k_def)
qed

lemma price_tick_zero_overflow:
  assumes "309 \<le> d0 - d1"
  shows "calculate_price_body 0 d0 d1 = Inl OverflowError"
proof -
  define k where "k = d0 - d1"
  note assms = assms[folded k_def]
  have k0: "0 \<le> k" using assms by simp
  have p: "int_pow 10 k = Inr (PyInt (10 ^ nat k))"
    using k0 by (simp add: int_pow_def)
  have "309 \<le> nat k" using assms by simp
  then have "double_overflows (10 ^ nat k)" by (rule pow10_overflow)
  then have c: "int_to_float (10 ^ nat k) = Inl OverflowError"
    by (simp add: int_to_float_def)
  show ?thesis
    by (simp add: calculate_price_body_def float_pow_int_zero p float_mul_num_def c
        flip: k_def)
qed

lemma price_tick_zero_negative:
  assumes "d0 - d1 < 0" "int_pow 10 (d0 - d1) = Inr v"
  shows "\<exists>y. v = PyFloat (Finite y) \<and> calculate_price_body 0 d0 d1 = Inr (Finite y)"
proof -
  from int_pow_10_negative[OF assms] obtain y where
    y: "v = PyFloat (Finite y)" "round_double y = y" "\<not> double_overflows y" by blast
  have "calculate_price_body 0 d0 d1 = Inr (Finite y)"
    using assms(2) float_mul_one_exact[OF y(2,3)]
    by (simp add: calculate_price_body_def float_pow_int_zero float_mul_num_def y(1))
  with y(1) show ?thesis by blast
qed


text \<open>
  C2 (as amended). At tick 0, whenever \<open>10**(d0 - d1)\<close> has a value and
  \<open>d0 - d1 \<le> 22\<close>, \<open>calculate_price_from_tick(0, d0, d1)\<close> returns a float equal to
  it. For \<open>0 \<le> d0 - d1 \<le> 308\<close> the result is \<open>10^(d0 - d1)\<close> rounded to the nearest
  double, which is the power itself only up to 22. From \<open>d0 - d1 = 309\<close> on the power
  is too large for a float, the \<open>OverflowError\<close> is caught and the result is \<open>0.0\<close>.
\<close>

theorem price_at_tick_zero:
  "(d0 - d1 \<le> 22 \<and> int_pow 10 (d0 - d1) = Inr v
      \<longrightarrow> (\<exists>x. calculate_price_from_tick 0 d0 d1 = Inr x \<and> py_eq (PyFloat x) v))
   \<and> (0 \<le> d0 - d1 \<and> d0 - d1 \<le> 308
      \<longrightarrow> calculate_price_from_tick 0 d0 d1 = Inr (Finite (round_double (10 ^ nat (d0 - d1)))))
   \<and> (309 \<le> d0 - d1 \<longrightarrow> calculate_price_from_tick 0 d0 d1 = Inr (Finite 0))"
proof (intro conjI impI)
  assume a: "d0 - d1 \<le> 22 \<and> int_pow 10 (d0 - d1) = Inr v"
  show "\<exists>x. calculate_price_from_tick 0 d0 d1 = Inr x \<and> py_eq (PyFloat x) v"
  proof (cases "d0 - d1 < 0")
    case True
    from price_tick_zero_negative[OF True] a obtain y where
      "v = PyFloat (Finite y)" "calculate_price_body 0 d0 d1 = Inr (Finite y)" by blast
    then show ?thesis
      by (simp add: calculate_price_from_tick_def except_return_zero_def py_eq_float_refl)
  next
    case False
    then have k: "0 \<le> d0 - d1" "nat (d0 - d1) \<le> 308" "nat (d0 - d1) \<in> {0..22}"
      using a by auto
    have v: "v = PyInt (10 ^ nat (d0 - d1))" using a k(1) by (simp add: int_pow_def)
    have "round_double (10 ^ nat (d0 - d1)) = 10 ^ nat (d0 - d1)"
      using round_double_pow10_exact k(3) by blast
    with price_tick_zero_nonneg[OF k(1,2)]
    have "calculate_price_body 0 d0 d1 = Inr (Finite (10 ^ nat (d0 - d1)))" by simp
    then have "calculate_price_from_tick 0 d0 d1 = Inr (Finite (10 ^ nat (d0 - d1)))"
      by (simp add: calculate_price_from_tick_def except_return_zero_def)
    moreover have "py_eq (PyFloat (Finite (10 ^ nat (d0 - d1)))) (PyInt (10 ^ nat (d0 - d1)))"
      by (simp add: py_eq_def)
    ultimately show ?thesis unfolding v by blast
  qed
next
  assume "0 \<le> d0 - d1 \<and> d0 - d1 \<le> 308"
  then have "0 \<le> d0 - d1" "nat (d0 - d1) \<le> 308" by auto
  from price_tick_zero_nonneg[OF this]
  show "calculate_price_from_tick 0 d0 d1 = Inr (Finite (round_double (10 ^ nat (d0 - d1))))"
    by (simp add: calculate_price_from_tick_def except_return_zero_def)
next
  assume "309 \<le> d0 - d1"
  from price_tick_zero_overflow[OF this]
  show "calculate_price_from_tick 0 d0 d1 = Inr (Finite 0)"
    by (simp add: calculate_price_from_tick_def except_return_zero_def)
qed

text \<open>
  C2 as stated fails where the power leaves the doubles: \<open>10**309\<close> is an \<open>int\<close>, the
  function returns \<open>0.0\<close>. It fails already at \<open>d0 - d1 = 23\<close>, where the nearest
  double is not \<open>10**23\<close> and Python compares a float and an \<open>int\<close> exactly.
\<close>

theorem price_at_tick_zero_counterexample:
  "int_pow 10 (309 - 0) = Inr (PyInt (10 ^ 309)) \<and>
   calculate_price_from_tick 0 309 0 = Inr (Finite 0) \<and>
   \<not> py_eq (PyFloat (Finite 0)) (PyInt (10 ^ 309)) \<and>
   int_pow 10 (23 - 0) = Inr (PyInt (10 ^ 23)) \<and>
   calculate_price_from_tick 0 23 0 = Inr (Finite 99999999999999991611392) \<and>
   \<not> py_eq (PyFloat (Finite 99999999999999991611392)) (PyInt (10 ^ 23))"
  by code_simp

theorem price_at_tick_zero_witness:
  "(18 - 6 \<le> (22::int) \<and> int_pow 10 (18 - 6) = Inr (PyInt (10 ^ 12))) \<and>
   (\<exists>x. calculate_price_from_tick 0 18 6 = Inr x \<and> py_eq (PyFloat x) (PyInt (10 ^ 12))) \<and>
   (6 - 18 \<le> (22::int) \<and> int_pow 10 (6 - 18) = Inr (PyFloat (Finite (round_double (1 / 10 ^ 12))))) \<and>
   (\<exists>x. calculate_price_from_tick 0 6 18 = Inr x \<and>
        py_eq (PyFloat x) (PyFloat (Finite (round_double (1 / 10 ^ 12))))) \<and>
   ((0::int) \<le> 30 - 0 \<and> 30 - 0 \<le> (308::int)) \<and>
   calculate_price_from_tick 0 30 0 = Inr (Finite (round_double (10 ^ nat (30 - 0)))) \<and>
   (309::int) \<le> 400 - 0 \<and>
   calculate_price_from_tick 0 400 0 = Inr (Finite 0)"
proof -
  have h1: "18 - 6 \<le> (22::int) \<and> int_pow 10 (18 - 6) = Inr (PyInt (10 ^ 12))"
    by code_simp
  have h2: "6 - 18 \<le> (22::int) \<and>
            int_pow 10 (6 - 18) = Inr (PyFloat (Finite (round_double (1 / 10 ^ 12))))"
    by code_simp
  have h3: "(0::int) \<le> 30 - 0 \<and> 30 - 0 \<le> (308::int)" by simp
  have h4: "(309::int) \<le> 400 - 0" by simp
  from price_at_tick_zero[of 18 6 "PyInt (10 ^ 12)"] h1
  have c1: "\<exists>x. calculate_price_from_tick 0 18 6 = Inr x \<and> py_eq (PyFloat x) (PyInt (10 ^ 12))"
    by blast
  from price_at_tick_zero[of 6 18 "PyFloat (Finite (round_double (1 / 10 ^ 12)))"] h2
  have c2: "\<exists>x. calculate_price_from_tick 0 6 18 = Inr x \<and>
        py_eq (PyFloat x) (PyFloat (Finite (round_double (1 / 10 ^ 12))))"
    by blast
  from price_at_tick_zero[of 30 0] h3
  have c3: "calculate_price_from_tick 0 30 0 = Inr (Finite (round_double (10 ^ nat (30 - 0))))"
    by blast
  from price_at_tick_zero[of 400 0] h4
  have c4: "calculate_price_from_tick 0 400 0 = Inr (Finite 0)"
    by blast
  from h1 h2 h3 h4 c1 c2 c3 c4 show ?thesis by blast
qed

(*THMS*)

end
